theory Spec2Isabelle
  imports Main "HOL-Library.Signed_Division"
begin

section \<open>The address queue of gdns.c\<close>

text \<open>
  \<^verbatim>\<open>GDnsQueue\<close> is declared in gdns.h, which gdns.c includes: four \<^verbatim>\<open>int\<close> fields and
  the array \<^verbatim>\<open>buffer\<close> of character slots, each \<^verbatim>\<open>H_SIZE\<close> bytes wide. \<open>slot_size\<close> is
  \<^verbatim>\<open>H_SIZE\<close>, and \<open>buffer\<close> holds one string for each slot of the array: the characters
  of the slot before its first NUL. A string shorter than \<open>slot_size\<close> is a slot that ends
  in a NUL; a string of \<open>slot_size\<close> characters is a slot without a NUL, whose C string
  runs on into the next slot. \<open>overrun\<close> is not a field of the struct: it records that
  a \<^verbatim>\<open>strcpy\<close> has written outside the array, after which the fields no longer
  describe the memory.

  C's \<^verbatim>\<open>int\<close> is \<open>int\<close>: in the states that \<^verbatim>\<open>gqueue_init\<close> and the operations lead to
  (\<open>counters_ok\<close> below) every counter lies between -1 and the capacity, so that no
  addition of the code leaves the range of \<^verbatim>\<open>int\<close>. C's \<^verbatim>\<open>%\<close> truncates towards zero,
  which is \<open>smod\<close>. The field \<^verbatim>\<open>size\<close> is called \<open>size_q\<close>, since \<open>size\<close> is a constant
  of HOL.
\<close>

record GDnsQueue =
  head :: int
  tail :: int
  size_q :: int
  capacity :: int
  buffer :: "string list"
  slot_size :: nat
  overrun :: bool

text \<open>\<^verbatim>\<open>gqueue_init\<close> sets the four counters and leaves the slots as they are.\<close>

definition gqueue_init :: "GDnsQueue \<Rightarrow> int \<Rightarrow> GDnsQueue" where
  "gqueue_init q c = q\<lparr>head := 0, tail := - 1, size_q := 0, capacity := c\<rparr>"

definition gqueue_size :: "GDnsQueue \<Rightarrow> int" where
  "gqueue_size q = size_q q"

text \<open>The two tests return the value of a C comparison: 1 or 0.\<close>

definition gqueue_empty :: "GDnsQueue \<Rightarrow> int" where
  "gqueue_empty q = (if size_q q = 0 then 1 else 0)"

definition gqueue_full :: "GDnsQueue \<Rightarrow> int" where
  "gqueue_full q = (if size_q q = capacity q then 1 else 0)"

subsection \<open>Strings in the slots\<close>

text \<open>
  \<^verbatim>\<open>strcpy\<close> does not check the length of what it copies. It writes the characters of
  the item and a NUL from the first byte of the slot onwards, and on into the slots that
  follow when the item has \<open>H\<close> characters or more. \<open>chunks H s\<close> are the pieces that
  land in consecutive slots: pieces of \<open>H\<close> characters, which fill a slot and leave it
  without a NUL, and a last piece of fewer than \<open>H\<close> characters (it may be empty), which
  is followed by the NUL. An item shorter than \<open>H\<close> is one piece. (\<open>H\<close> is the
  dimension of an array and so positive; for \<open>H = 0\<close> the item is left in one piece.)
\<close>

function chunks :: "nat \<Rightarrow> string \<Rightarrow> string list" where
  "chunks H s = (if H = 0 \<or> length s < H then [s] else take H s # chunks H (drop H s))"
  by pat_completeness auto
termination
  by (relation "measure (\<lambda>(H, s). length s)") auto

declare chunks.simps [simp del]

text \<open>
  \<open>store buf t cs\<close> puts the pieces into the slots from index \<open>t\<close> on; a piece whose
  index is past the last slot lands outside the array and is not in \<open>buf\<close>.
\<close>

fun store :: "string list \<Rightarrow> nat \<Rightarrow> string list \<Rightarrow> string list" where
  "store buf t [] = buf"
| "store buf t (c # cs) = store (buf[t := c]) (Suc t) cs"

text \<open>
  \<^verbatim>\<open>strcpy (q->buffer[t], item)\<close>. The flag \<open>overrun\<close> is raised when the index is
  negative or when a piece lands past the last slot.
\<close>

definition strcpy :: "GDnsQueue \<Rightarrow> int \<Rightarrow> string \<Rightarrow> GDnsQueue" where
  "strcpy q t item =
     (if t < 0 then q\<lparr>overrun := True\<rparr>
      else
        let cs = chunks (slot_size q) item
        in q\<lparr>buffer := store (buffer q) (nat t) cs,
             overrun := overrun q \<or> length (buffer q) < nat t + length cs\<rparr>)"

text \<open>
  The C string that starts at slot \<open>t\<close>: the characters up to the first NUL. A slot
  without a NUL gives its \<open>H\<close> characters and the string of the next slot; the string
  ends at the end of the array at the latest.
\<close>

function c_string :: "nat \<Rightarrow> string list \<Rightarrow> nat \<Rightarrow> string" where
  "c_string H buf t =
     (if t < length buf
      then (if length (buf ! t) < H then buf ! t
            else take H (buf ! t) @ c_string H buf (Suc t))
      else [])"
  by pat_completeness auto
termination
  by (relation "measure (\<lambda>(H, buf, t). length buf - t)") auto

declare c_string.simps [simp del]

text \<open>
  A \<^verbatim>\<open>char *\<close> into the array is the index of the slot it points to; \<open>slot q p\<close> is the
  string that a reader finds behind such a pointer.
\<close>

definition slot :: "GDnsQueue \<Rightarrow> int \<Rightarrow> string" where
  "slot q p = c_string (slot_size q) (buffer q) (nat p)"

subsection \<open>Enqueue, find, dequeue\<close>

text \<open>
  \<^verbatim>\<open>gqueue_enqueue\<close> returns -1 on a full queue; otherwise it advances \<^verbatim>\<open>tail\<close>,
  copies the item to \<^verbatim>\<open>buffer[tail]\<close> with \<^verbatim>\<open>strcpy\<close> and counts it.
\<close>

definition gqueue_enqueue :: "GDnsQueue \<Rightarrow> string \<Rightarrow> GDnsQueue \<times> int" where
  "gqueue_enqueue q item =
     (if gqueue_full q \<noteq> 0 then (q, - 1)
      else
        let q1 = q\<lparr>tail := (tail q + 1) smod capacity q\<rparr>;
            q2 = strcpy q1 (tail q1) item
        in (q2\<lparr>size_q := size_q q2 + 1\<rparr>, 0))"

text \<open>
  The loop of \<^verbatim>\<open>gqueue_find\<close>, from index \<open>i\<close>: it compares the item with the string
  at \<^verbatim>\<open>buffer[i]\<close> for \<open>i\<close> below \<^verbatim>\<open>size\<close> (\<^verbatim>\<open>strcmp\<close> is 0 on equal strings).
\<close>

function gqueue_find_loop :: "GDnsQueue \<Rightarrow> string \<Rightarrow> int \<Rightarrow> int" where
  "gqueue_find_loop q item i =
     (if i < size_q q
      then (if item = slot q i then 1 else gqueue_find_loop q item (i + 1))
      else 0)"
  by pat_completeness auto
termination
  by (relation "measure (\<lambda>(q, item, i). nat (size_q q - i))") auto

declare gqueue_find_loop.simps [simp del]

definition gqueue_find :: "GDnsQueue \<Rightarrow> string \<Rightarrow> int" where
  "gqueue_find q item = (if gqueue_empty q \<noteq> 0 then 0 else gqueue_find_loop q item 0)"

text \<open>
  \<^verbatim>\<open>gqueue_dequeue\<close> returns a \<^verbatim>\<open>char *\<close>: \<^verbatim>\<open>NULL\<close> (\<open>None\<close>) on an empty queue,
  otherwise the address of the slot \<^verbatim>\<open>buffer[head]\<close>, which is \<open>Some\<close> of the slot's
  index. The characters stay in the slot; \<open>slot\<close> reads them through such a pointer.
\<close>

definition gqueue_dequeue :: "GDnsQueue \<Rightarrow> GDnsQueue \<times> int option" where
  "gqueue_dequeue q =
     (if gqueue_empty q \<noteq> 0 then (q, None)
      else (q\<lparr>head := (head q + 1) smod capacity q, size_q := size_q q - 1\<rparr>, Some (head q)))"

text \<open>
  \<^verbatim>\<open>dns_resolver\<close>, the producer. Between locking and unlocking the mutex it tests
  that the queue is not full and that \<^verbatim>\<open>gqueue_find\<close> does not find the address
  (\<open>dns_admits\<close> is that condition), and enqueues the address when the test holds.
\<close>

definition dns_admits :: "GDnsQueue \<Rightarrow> string \<Rightarrow> bool" where
  "dns_admits q addr \<longleftrightarrow> gqueue_full q = 0 \<and> gqueue_find q addr = 0"

definition dns_resolver :: "GDnsQueue \<Rightarrow> string \<Rightarrow> GDnsQueue" where
  "dns_resolver q addr = (if dns_admits q addr then fst (gqueue_enqueue q addr) else q)"

subsection \<open>Queue operations as values\<close>

text \<open>
  The six operations on a queue, as the values a caller can choose among, and the effect
  of each on the queue together with what it returns.
\<close>

datatype qop = Enqueue string | Dequeue | Find string | Size | Empty | Full

datatype qret = RInt int | RPtr "int option"

fun qop_apply :: "GDnsQueue \<Rightarrow> qop \<Rightarrow> GDnsQueue \<times> qret" where
  "qop_apply q (Enqueue a) = (let (q', r) = gqueue_enqueue q a in (q', RInt r))"
| "qop_apply q Dequeue = (let (q', p) = gqueue_dequeue q in (q', RPtr p))"
| "qop_apply q (Find a) = (q, RInt (gqueue_find q a))"
| "qop_apply q Size = (q, RInt (gqueue_size q))"
| "qop_apply q Empty = (q, RInt (gqueue_empty q))"
| "qop_apply q Full = (q, RInt (gqueue_full q))"

fun qop_run :: "GDnsQueue \<Rightarrow> qop list \<Rightarrow> GDnsQueue" where
  "qop_run q [] = q"
| "qop_run q (x # xs) = qop_run (fst (qop_apply q x)) xs"

subsection \<open>Properties of a queue state\<close>

text \<open>The bound on the size that the data model states.\<close>

definition size_bounded :: "GDnsQueue \<Rightarrow> bool" where
  "size_bounded q \<longleftrightarrow> 0 \<le> size_q q \<and> size_q q \<le> capacity q"

text \<open>
  The counters of the states the queue can be in: the capacity is positive and not larger
  than the array of slots, \<^verbatim>\<open>head\<close> is a slot index, \<^verbatim>\<open>tail\<close> is -1 (after
  \<^verbatim>\<open>gqueue_init\<close>) or a slot index, and \<^verbatim>\<open>tail\<close> is the slot before the one that
  \<^verbatim>\<open>size\<close> steps from \<^verbatim>\<open>head\<close> reach.
\<close>

definition counters_ok :: "GDnsQueue \<Rightarrow> bool" where
  "counters_ok q \<longleftrightarrow>
     0 < capacity q \<and> capacity q \<le> int (length (buffer q)) \<and>
     0 \<le> head q \<and> head q < capacity q \<and>
     0 \<le> size_q q \<and> size_q q \<le> capacity q \<and>
     - 1 \<le> tail q \<and> tail q < capacity q \<and>
     (tail q + 1) mod capacity q = (head q + size_q q) mod capacity q"

text \<open>
  The slots in use, in circular order from \<^verbatim>\<open>head\<close>: what each of them holds
  (\<open>contents\<close>), and the live entries of the queue, which are the strings a reader
  finds at them (\<open>live\<close>).
\<close>

definition contents :: "GDnsQueue \<Rightarrow> string list" where
  "contents q =
     map (\<lambda>k. buffer q ! nat ((head q + int k) mod capacity q)) [0..<nat (size_q q)]"

definition live :: "GDnsQueue \<Rightarrow> string list" where
  "live q = map (\<lambda>k. slot q ((head q + int k) mod capacity q)) [0..<nat (size_q q)]"

text \<open>
  A string fits a slot when \<^verbatim>\<open>strcpy\<close> stays inside the slot with it: its characters
  and the NUL take at most \<open>slot_size\<close> bytes.
\<close>

definition fits :: "GDnsQueue \<Rightarrow> string \<Rightarrow> bool" where
  "fits q s \<longleftrightarrow> length s < slot_size q"

text \<open>
  The states the queue is in as long as every submitted address fits its slot: the
  counters are as above and every slot in use ends in a NUL.
\<close>

definition queue_ok :: "GDnsQueue \<Rightarrow> bool" where
  "queue_ok q \<longleftrightarrow> counters_ok q \<and> list_all (fits q) (contents q)"

subsection \<open>Submitting and draining\<close>

text \<open>
  A sequence of calls of \<^verbatim>\<open>dns_resolver\<close>, the addresses among them that were
  enqueued, and a drain: up to \<open>n\<close> calls of \<^verbatim>\<open>gqueue_dequeue\<close>, stopping at the first
  \<^verbatim>\<open>NULL\<close>, each returned pointer read at once.
\<close>

fun submit_all :: "GDnsQueue \<Rightarrow> string list \<Rightarrow> GDnsQueue" where
  "submit_all q [] = q"
| "submit_all q (a # as) = submit_all (dns_resolver q a) as"

fun admitted :: "GDnsQueue \<Rightarrow> string list \<Rightarrow> string list" where
  "admitted q [] = []"
| "admitted q (a # as) = (if dns_admits q a then [a] else []) @ admitted (dns_resolver q a) as"

fun drain :: "nat \<Rightarrow> GDnsQueue \<Rightarrow> string list \<times> GDnsQueue" where
  "drain 0 q = ([], q)"
| "drain (Suc n) q =
     (case gqueue_dequeue q of
        (q', None) \<Rightarrow> ([], q')
      | (q', Some p) \<Rightarrow> (let (xs, q'') = drain n q' in (slot q' p # xs, q'')))"

section \<open>The resolution function\<close>

text \<open>
  \<^verbatim>\<open>inet_pton\<close>, \<^verbatim>\<open>getnameinfo\<close> and \<^verbatim>\<open>gai_strerror\<close> belong to the C library; they
  are parameters. \<open>inet_pton4 L s\<close> is \<open>Some a\<close> when \<^verbatim>\<open>inet_pton (AF_INET, s, dst)\<close>
  returns 1 and stores the bytes \<open>a\<close>, and \<open>None\<close> otherwise; likewise \<open>inet_pton6\<close> for
  \<^verbatim>\<open>AF_INET6\<close>. \<open>getnameinfo L a\<close> is the status and the contents of the name buffer.
  Every function here returns, next to its result, the C library calls it made, in order.
\<close>

datatype sockaddr = Sockaddr_in "nat list" | Sockaddr_in6 "nat list"

datatype libcall = Inet_pton4 string | Inet_pton6 string | Getnameinfo sockaddr

record libc =
  inet_pton4 :: "string \<Rightarrow> nat list option"
  inet_pton6 :: "string \<Rightarrow> nat list option"
  getnameinfo :: "sockaddr \<Rightarrow> int \<times> string"
  gai_strerror :: "int \<Rightarrow> string"

text \<open>
  \<^verbatim>\<open>reverse_host\<close> returns a string in both branches: the name when the status is 0,
  the text of the error otherwise.
\<close>

definition reverse_host :: "libc \<Rightarrow> sockaddr \<Rightarrow> string \<times> libcall list" where
  "reverse_host L a =
     (let (st, h) = getnameinfo L a
      in (if st = 0 then h else gai_strerror L st, [Getnameinfo a]))"

text \<open>\<^verbatim>\<open>reverse_ip\<close>; \<open>None\<close> is \<^verbatim>\<open>NULL\<close>, as argument and as result.\<close>

definition reverse_ip :: "libc \<Rightarrow> string option \<Rightarrow> string option \<times> libcall list" where
  "reverse_ip L str =
     (case str of
        None \<Rightarrow> (None, [])
      | Some s \<Rightarrow>
          if s = [] then (None, [])
          else
            (case inet_pton4 L s of
               Some a \<Rightarrow>
                 (let (h, cs) = reverse_host L (Sockaddr_in a) in (Some h, Inet_pton4 s # cs))
             | None \<Rightarrow>
                 (case inet_pton6 L s of
                    Some a \<Rightarrow>
                      (let (h, cs) = reverse_host L (Sockaddr_in6 a)
                       in (Some h, Inet_pton4 s # Inet_pton6 s # cs))
                  | None \<Rightarrow> (None, [Inet_pton4 s, Inet_pton6 s]))))"

section \<open>The worker\<close>

text \<open>
  The shared state: the queue, the flag \<^verbatim>\<open>active_gdns\<close>, the calls of
  \<^verbatim>\<open>ht_insert_hostname\<close> made so far, where the worker is in its loop, the C library
  calls made so far, and whether the mutex is held by a thread that has ended.

  One iteration of the loop of \<^verbatim>\<open>dns_worker\<close> is three steps, cut where the mutex
  changes hands: \<open>worker_take\<close> (lock, wait, dequeue, unlock), \<open>worker_resolve\<close> (the call
  of \<^verbatim>\<open>reverse_ip\<close>, without the mutex) and \<open>worker_publish\<close> (lock, test of the flag,
  insert, signal, unlock). The local \<^verbatim>\<open>ip\<close> is the pointer that \<^verbatim>\<open>gqueue_dequeue\<close>
  returned; the characters are read through it when \<^verbatim>\<open>reverse_ip\<close> and
  \<^verbatim>\<open>ht_insert_hostname\<close> are called.
\<close>

datatype wstate =
  Waiting | Resolving "int option" | Publishing "int option" "string option" | Stopped

record gdns =
  gdns_queue :: GDnsQueue
  active_gdns :: bool
  hostnames :: "(string option \<times> string) list"
  worker :: wstate
  calls :: "libcall list"
  mutex_held :: bool

text \<open>
  Modelled from the spec: \<^verbatim>\<open>ht_insert_hostname\<close>, the put of the Hostname Store, is
  defined outside these source files. The store is the list of the puts it received, each
  with the key string read through the pointer it was given (\<open>None\<close> for \<^verbatim>\<open>NULL\<close>).
\<close>

definition ht_insert_hostname ::
  "(string option \<times> string) list \<Rightarrow> string option \<Rightarrow> string \<Rightarrow> (string option \<times> string) list"
where
  "ht_insert_hostname hs ip host = hs @ [(ip, host)]"

text \<open>A worker that finds the queue empty stays in \<^verbatim>\<open>pthread_cond_wait\<close>.\<close>

definition worker_take :: "gdns \<Rightarrow> gdns" where
  "worker_take g =
     (if gqueue_empty (gdns_queue g) \<noteq> 0 then g
      else
        let (q', ip) = gqueue_dequeue (gdns_queue g)
        in g\<lparr>gdns_queue := q', worker := Resolving ip\<rparr>)"

definition worker_resolve :: "libc \<Rightarrow> int option \<Rightarrow> gdns \<Rightarrow> gdns" where
  "worker_resolve L ip g =
     (let (host, cs) = reverse_ip L (map_option (slot (gdns_queue g)) ip)
      in g\<lparr>worker := Publishing ip host, calls := calls g @ cs\<rparr>)"

text \<open>
  On an inactive flag the loop is left by \<^verbatim>\<open>break\<close>, past the unlock at its end: the
  thread ends with the mutex locked.
\<close>

definition worker_publish :: "int option \<Rightarrow> string option \<Rightarrow> gdns \<Rightarrow> gdns" where
  "worker_publish ip host g =
     (if \<not> active_gdns g then g\<lparr>worker := Stopped, mutex_held := True\<rparr>
      else
        (case host of
           Some h \<Rightarrow>
             (if active_gdns g
              then g\<lparr>hostnames :=
                      ht_insert_hostname (hostnames g) (map_option (slot (gdns_queue g)) ip) h,
                     worker := Waiting\<rparr>
              else g\<lparr>worker := Waiting\<rparr>)
         | None \<Rightarrow> g\<lparr>worker := Waiting\<rparr>))"

definition dns_worker :: "libc \<Rightarrow> gdns \<Rightarrow> gdns" where
  "dns_worker L g =
     (case worker g of
        Waiting \<Rightarrow> worker_take g
      | Resolving ip \<Rightarrow> worker_resolve L ip g
      | Publishing ip host \<Rightarrow> worker_publish ip host g
      | Stopped \<Rightarrow> g)"

subsection \<open>Interleavings\<close>

text \<open>
  What can happen to the shared state, one critical section at a time: a producer calls
  \<^verbatim>\<open>dns_resolver\<close> (\<open>Submit\<close>), the worker takes its next step (\<open>Work\<close>), or the flag
  is cleared (\<open>Stop\<close>). A thread that asks for a mutex that is never unlocked stays
  blocked, and the state stays as it is.
\<close>

text \<open>
  Modelled from the spec: the code that clears \<^verbatim>\<open>active_gdns\<close> is outside these source
  files; the event \<open>Stop\<close> is the spec's \<^verbatim>\<open>stop()\<close>, which sets \<^verbatim>\<open>active=false\<close> under
  the mutex. \<open>Submit\<close> and \<open>Work\<close> are \<^verbatim>\<open>dns_resolver\<close> and \<^verbatim>\<open>dns_worker\<close> of gdns.c.
\<close>

datatype event = Submit string | Work | Stop

fun step :: "libc \<Rightarrow> gdns \<Rightarrow> event \<Rightarrow> gdns" where
  "step L g (Submit a) =
     (if mutex_held g then g else g\<lparr>gdns_queue := dns_resolver (gdns_queue g) a\<rparr>)"
| "step L g Work = dns_worker L g"
| "step L g Stop = (if mutex_held g then g else g\<lparr>active_gdns := False\<rparr>)"

definition run :: "libc \<Rightarrow> gdns \<Rightarrow> event list \<Rightarrow> gdns" where
  "run L g es = foldl (step L) g es"

section \<open>Start-up\<close>

text \<open>
  The return codes of the four pthread calls are parameters, as are \<^verbatim>\<open>QUEUE_SIZE\<close>
  (gdns.h) and the memory that \<^verbatim>\<open>xmalloc\<close> returns.
\<close>

text \<open>
  Modelled from the spec: \<^verbatim>\<open>FATAL\<close> is a macro of error.h, which is not among these
  source files. The spec calls a failure of initialisation fatal to the subsystem:
  start-up aborts. A function that reaches \<^verbatim>\<open>FATAL\<close> therefore returns \<open>Inl\<close> of the
  report (the format string and its arguments), and no state.
\<close>

datatype error = Fatal string "int list"

record pthread_rc =
  cond_init_not_empty :: int
  cond_init_not_full :: int
  mutex_init :: int
  thread_create :: int

definition gdns_init :: "pthread_rc \<Rightarrow> int \<Rightarrow> GDnsQueue \<Rightarrow> error + GDnsQueue" where
  "gdns_init rc QUEUE_SIZE mem =
     (let q = gqueue_init mem QUEUE_SIZE
      in if cond_init_not_empty rc \<noteq> 0 then Inl (Fatal ''Failed init thread condition'' [])
         else if cond_init_not_full rc \<noteq> 0 then Inl (Fatal ''Failed init thread condition'' [])
         else if mutex_init rc \<noteq> 0 then Inl (Fatal ''Failed init thread mutex'' [])
         else Inr q)"

text \<open>
  \<^verbatim>\<open>gdns_thread_create\<close> sets the flag and starts the worker at the top of its loop.
\<close>

definition gdns_thread_create ::
  "pthread_rc \<Rightarrow> GDnsQueue \<Rightarrow> (string option \<times> string) list \<Rightarrow> error + gdns"
where
  "gdns_thread_create rc q hs =
     (let thread = thread_create rc
      in if thread \<noteq> 0 then Inl (Fatal ''Return code from pthread_create(): %d'' [thread])
         else Inr \<lparr>gdns_queue = q, active_gdns = True, hostnames = hs, worker = Waiting,
                   calls = [], mutex_held = False\<rparr>)"

subsection \<open>A started subsystem and a stub of the C library\<close>

text \<open>
  The state after \<^verbatim>\<open>gdns_init\<close> and \<^verbatim>\<open>gdns_thread_create\<close> have both succeeded, for a
  capacity \<open>c\<close>, a block of memory \<open>mem\<close> and an empty store.
\<close>

definition gdns_start :: "int \<Rightarrow> GDnsQueue \<Rightarrow> gdns" where
  "gdns_start c mem =
     \<lparr>gdns_queue = gqueue_init mem c, active_gdns = True, hostnames = [], worker = Waiting,
      calls = [], mutex_held = False\<rparr>"

text \<open>
  A C library for concrete runs: it parses two IPv4 literals and one IPv6 literal, knows
  the name of one address, and answers every other lookup with the status -2
  (\<^verbatim>\<open>EAI_NONAME\<close>), whose text is "Name or service not known".
\<close>

definition libc_stub :: libc where
  "libc_stub =
     \<lparr>inet_pton4 = (\<lambda>s. if s = ''93.184.216.34'' then Some [93, 184, 216, 34]
                         else if s = ''10.0.0.1'' then Some [10, 0, 0, 1] else None),
      inet_pton6 = (\<lambda>s. if s = ''::1'' then Some (replicate 15 0 @ [1]) else None),
      getnameinfo = (\<lambda>a. if a = Sockaddr_in [93, 184, 216, 34] then (0, ''example.com'') else (- 2, [])),
      gai_strerror = (\<lambda>st. if st = - 2 then ''Name or service not known''
                           else ''Unknown error'')\<rparr>"

text \<open>
  Memory for a queue of \<open>n\<close> slots of 256 bytes, before \<^verbatim>\<open>gqueue_init\<close>: arbitrary
  counters, a NUL at the start of every slot.
\<close>

definition fresh_mem :: "nat \<Rightarrow> GDnsQueue" where
  "fresh_mem n =
     \<lparr>head = 7, tail = 5, size_q = 9, capacity = 0, buffer = replicate n [],
      slot_size = 256, overrun = False\<rparr>"

section \<open>Facts about the queue\<close>

subsection \<open>Strings that fit their slot\<close>

lemma chunks_fit: "length s < H \<Longrightarrow> chunks H s = [s]"
  by (subst chunks.simps) simp

lemma length_store: "length (store buf t cs) = length buf"
  by (induction cs arbitrary: buf t) simp_all

lemma strcpy_fit:
  assumes "0 \<le> t" and "nat t < length (buffer q)" and "length a < slot_size q"
  shows "strcpy q t a = q\<lparr>buffer := (buffer q)[nat t := a]\<rparr>"
proof -
  have "\<not> length (buffer q) < nat t + 1"
    using assms(2) by simp
  then show ?thesis
    using assms(1) by (simp add: strcpy_def chunks_fit [OF assms(3)])
qed

lemma c_string_fit: "t < length buf \<Longrightarrow> length (buf ! t) < H \<Longrightarrow> c_string H buf t = buf ! t"
  by (subst c_string.simps) simp

lemma strcpy_counters:
  "head (strcpy q t a) = head q \<and> tail (strcpy q t a) = tail q \<and>
   size_q (strcpy q t a) = size_q q \<and> capacity (strcpy q t a) = capacity q \<and>
   slot_size (strcpy q t a) = slot_size q \<and>
   length (buffer (strcpy q t a)) = length (buffer q)"
  by (simp add: strcpy_def Let_def length_store)

text \<open>
  An item of \<open>H\<close> characters or more runs on into the next slot, and a later write to
  that slot changes the string that starts in the first: with slots of 4 bytes, five
  characters written to slot 0 and one to slot 1.
\<close>

lemma long_item_runs_on:
  "chunks 4 ''AAAAA'' = [''AAAA'', ''A''] \<and>
   store [[], []] 0 (chunks 4 ''AAAAA'') = [''AAAA'', ''A''] \<and>
   c_string 4 [''AAAA'', ''A''] 0 = ''AAAAA'' \<and>
   c_string 4 (store [''AAAA'', ''A''] 1 (chunks 4 ''B'')) 0 = ''AAAAB''"
  by code_simp

subsection \<open>Counters\<close>

lemma counters_ok_init:
  "0 < c \<Longrightarrow> c \<le> int (length (buffer q)) \<Longrightarrow> counters_ok (gqueue_init q c)"
  by (simp add: counters_ok_def gqueue_init_def)

lemma queue_ok_iff:
  "queue_ok q \<longleftrightarrow> counters_ok q \<and> (\<forall>s\<in>set (contents q). length s < slot_size q)"
  by (simp add: queue_ok_def list_all_iff fits_def)

lemma queue_ok_init:
  "0 < c \<Longrightarrow> c \<le> int (length (buffer q)) \<Longrightarrow> queue_ok (gqueue_init q c)"
  by (simp add: queue_ok_iff counters_ok_init) (simp add: contents_def gqueue_init_def)

lemma enqueue_full: "size_q q = capacity q \<Longrightarrow> gqueue_enqueue q a = (q, - 1)"
  by (simp add: gqueue_enqueue_def gqueue_full_def)

lemma enqueue_room:
  assumes ok: "counters_ok q" and room: "size_q q \<noteq> capacity q"
    and fit: "length a < slot_size q"
  shows "gqueue_enqueue q a =
    (q\<lparr>tail := (head q + size_q q) mod capacity q,
       buffer := (buffer q)[nat ((head q + size_q q) mod capacity q) := a],
       size_q := size_q q + 1\<rparr>, 0)"
proof -
  let ?t = "(head q + size_q q) mod capacity q"
  have c: "0 < capacity q" and len: "capacity q \<le> int (length (buffer q))"
    using ok by (simp_all add: counters_ok_def)
  have "(tail q + 1) smod capacity q = (tail q + 1) mod capacity q"
    using ok by (intro smod_mod_positive) (simp_all add: counters_ok_def)
  also have "\<dots> = ?t"
    using ok by (simp add: counters_ok_def)
  finally have t: "(tail q + 1) smod capacity q = ?t" .
  have t0: "0 \<le> ?t" and t1: "?t < capacity q"
    using c by simp_all
  have t2: "nat ?t < length (buffer (q\<lparr>tail := ?t\<rparr>))"
    using t0 t1 len by simp
  have fit': "length a < slot_size (q\<lparr>tail := ?t\<rparr>)"
    using fit by simp
  have "strcpy (q\<lparr>tail := ?t\<rparr>) ?t a =
      q\<lparr>tail := ?t, buffer := (buffer q)[nat ?t := a]\<rparr>"
    using strcpy_fit [OF t0 t2 fit'] by simp
  then show ?thesis
    using room by (simp add: gqueue_enqueue_def gqueue_full_def Let_def t)
qed

lemma dequeue_empty: "size_q q = 0 \<Longrightarrow> gqueue_dequeue q = (q, None)"
  by (simp add: gqueue_dequeue_def gqueue_empty_def)

lemma dequeue_nonempty:
  assumes "counters_ok q" and "size_q q \<noteq> 0"
  shows "gqueue_dequeue q =
    (q\<lparr>head := (head q + 1) mod capacity q, size_q := size_q q - 1\<rparr>, Some (head q))"
proof -
  have "(head q + 1) smod capacity q = (head q + 1) mod capacity q"
    using assms(1) by (intro smod_mod_positive) (simp_all add: counters_ok_def)
  then show ?thesis
    using assms(2) by (simp add: gqueue_dequeue_def gqueue_empty_def)
qed

lemma counters_ok_enqueue:
  assumes ok: "counters_ok q" and fit: "length a < slot_size q"
  shows "counters_ok (fst (gqueue_enqueue q a))"
proof (cases "size_q q = capacity q")
  case True
  with ok show ?thesis by (simp add: enqueue_full)
next
  case False
  have c: "0 < capacity q" using ok by (simp add: counters_ok_def)
  have "((head q + size_q q) mod capacity q + 1) mod capacity q =
      (head q + size_q q + 1) mod capacity q"
    by (rule mod_add_left_eq)
  moreover have "head q + size_q q + 1 = head q + (size_q q + 1)"
    by simp
  ultimately have wrap: "((head q + size_q q) mod capacity q + 1) mod capacity q =
      (head q + (size_q q + 1)) mod capacity q"
    by simp
  have "0 \<le> (head q + size_q q) mod capacity q"
    using c by simp
  then have low: "- 1 \<le> (head q + size_q q) mod capacity q"
    by linarith
  show ?thesis
    using ok False c wrap low by (simp add: enqueue_room [OF ok False fit] counters_ok_def)
qed

lemma counters_ok_dequeue: "counters_ok q \<Longrightarrow> counters_ok (fst (gqueue_dequeue q))"
proof (cases "size_q q = 0")
  case True
  assume "counters_ok q"
  with True show ?thesis by (simp add: dequeue_empty)
next
  case False
  assume ok: "counters_ok q"
  have c: "0 < capacity q" using ok by (simp add: counters_ok_def)
  have "((head q + 1) mod capacity q + (size_q q - 1)) mod capacity q =
      (head q + 1 + (size_q q - 1)) mod capacity q"
    by (rule mod_add_left_eq)
  then have "((head q + 1) mod capacity q + (size_q q - 1)) mod capacity q =
      (head q + size_q q) mod capacity q"
    by simp
  then show ?thesis
    using ok False c by (simp add: dequeue_nonempty counters_ok_def)
qed

subsection \<open>Slots in use\<close>

lemma circular_distinct:
  fixes h k s c :: int
  assumes "0 \<le> k" "k < s" "s < c"
  shows "(h + k) mod c \<noteq> (h + s) mod c"
proof
  assume "(h + k) mod c = (h + s) mod c"
  then have "c dvd (h + s) - (h + k)"
    by (metis mod_eq_dvd_iff)
  then have "c dvd s - k" by simp
  moreover have "0 < s - k" "s - k < c" using assms by simp_all
  ultimately show False
    by (meson zdvd_not_zless)
qed

lemma length_contents: "length (contents q) = nat (size_q q)"
  by (simp add: contents_def)

lemma length_live: "length (live q) = nat (size_q q)"
  by (simp add: live_def)

lemma contents_enqueue:
  assumes ok: "counters_ok q" and room: "size_q q \<noteq> capacity q"
    and fit: "length a < slot_size q"
  shows "contents (fst (gqueue_enqueue q a)) = contents q @ [a]"
proof -
  let ?c = "capacity q" and ?t = "(head q + size_q q) mod capacity q"
  have c: "0 < ?c" and s: "0 \<le> size_q q" "size_q q < ?c" and len: "?c \<le> int (length (buffer q))"
    using ok room by (simp_all add: counters_ok_def)
  have t: "0 \<le> ?t" "?t < ?c" using c by simp_all
  have old: "(buffer q)[nat ?t := a] ! nat ((head q + int k) mod ?c) =
      buffer q ! nat ((head q + int k) mod ?c)" if "k < nat (size_q q)" for k
  proof -
    have "(head q + int k) mod ?c \<noteq> ?t"
      using that s by (intro circular_distinct) simp_all
    moreover have "0 \<le> (head q + int k) mod ?c" using c by simp
    ultimately have "nat ((head q + int k) mod ?c) \<noteq> nat ?t"
      using t by (simp add: eq_nat_nat_iff)
    then show ?thesis by simp
  qed
  have "nat ?t < length (buffer q)"
    using t len by linarith
  then have "(buffer q)[nat ?t := a] ! nat ?t = a"
    by simp
  then have new: "(buffer q)[nat ?t := a] ! nat ((head q + int (nat (size_q q))) mod ?c) = a"
    using s by simp
  have n: "nat (size_q q + 1) = Suc (nat (size_q q))"
    using s by simp
  show ?thesis
    using old new by (simp add: enqueue_room [OF ok room fit] contents_def n)
qed

lemma contents_dequeue:
  assumes ok: "counters_ok q" and ne: "size_q q \<noteq> 0"
  shows "contents q = buffer q ! nat (head q) # contents (fst (gqueue_dequeue q))"
proof -
  let ?c = "capacity q"
  have c: "0 < ?c" and h: "0 \<le> head q" "head q < ?c" and s: "0 < size_q q"
    using ok ne by (simp_all add: counters_ok_def)
  define m where "m = nat (size_q q - 1)"
  have m: "nat (size_q q) = Suc m" "nat (size_q q - 1) = m"
    using s by (simp_all add: m_def)
  have shift: "((head q + 1) mod ?c + int k) mod ?c = (head q + int (Suc k)) mod ?c" for k
  proof -
    have "((head q + 1) mod ?c + int k) mod ?c = (head q + 1 + int k) mod ?c"
      by (rule mod_add_left_eq)
    also have "head q + 1 + int k = head q + int (Suc k)" by simp
    finally show ?thesis .
  qed
  have "[0..<Suc m] = 0 # map Suc [0..<m]"
    by (simp add: upt_conv_Cons map_Suc_upt del: upt_Suc)
  then show ?thesis
    using h by (simp add: dequeue_nonempty [OF ok ne] contents_def m shift o_def del: upt_Suc)
qed

lemma slot_size_enqueue: "slot_size (fst (gqueue_enqueue q a)) = slot_size q"
  by (simp add: gqueue_enqueue_def Let_def strcpy_counters)

lemma slot_size_dequeue: "slot_size (fst (gqueue_dequeue q)) = slot_size q"
  by (simp add: gqueue_dequeue_def)

lemma queue_ok_enqueue:
  assumes ok: "queue_ok q" and fit: "length a < slot_size q"
  shows "queue_ok (fst (gqueue_enqueue q a))"
proof (cases "size_q q = capacity q")
  case True
  with ok show ?thesis by (simp add: enqueue_full)
next
  case False
  have cok: "counters_ok q" using ok by (simp add: queue_ok_iff)
  have "counters_ok (fst (gqueue_enqueue q a))"
    using cok fit by (rule counters_ok_enqueue)
  moreover have "\<forall>s\<in>set (contents (fst (gqueue_enqueue q a))).
      length s < slot_size (fst (gqueue_enqueue q a))"
    using ok fit by (simp add: contents_enqueue [OF cok False fit] slot_size_enqueue queue_ok_iff)
  ultimately show ?thesis
    by (simp add: queue_ok_iff)
qed

lemma queue_ok_dequeue:
  assumes ok: "queue_ok q"
  shows "queue_ok (fst (gqueue_dequeue q))"
proof (cases "size_q q = 0")
  case True
  with ok show ?thesis by (simp add: dequeue_empty)
next
  case False
  have cok: "counters_ok q" using ok by (simp add: queue_ok_iff)
  have "counters_ok (fst (gqueue_dequeue q))"
    using cok by (rule counters_ok_dequeue)
  moreover have "\<forall>s\<in>set (contents (fst (gqueue_dequeue q))).
      length s < slot_size (fst (gqueue_dequeue q))"
    using ok contents_dequeue [OF cok False] by (simp add: slot_size_dequeue queue_ok_iff)
  ultimately show ?thesis
    by (simp add: queue_ok_iff)
qed

text \<open>In such a state a reader finds in every slot in use the string that the slot holds.\<close>

lemma slot_in_use:
  assumes ok: "queue_ok q" and k: "k < nat (size_q q)"
  shows "slot q ((head q + int k) mod capacity q) =
    buffer q ! nat ((head q + int k) mod capacity q)"
proof -
  let ?i = "(head q + int k) mod capacity q"
  have c: "0 < capacity q" and len: "capacity q \<le> int (length (buffer q))"
    using ok by (simp_all add: queue_ok_iff counters_ok_def)
  have "0 \<le> ?i" "?i < capacity q" using c by simp_all
  then have i: "nat ?i < length (buffer q)"
    using len by linarith
  have "buffer q ! nat ?i \<in> set (contents q)"
    using k by (auto simp: contents_def)
  then have "length (buffer q ! nat ?i) < slot_size q"
    using ok by (simp add: queue_ok_iff)
  with i show ?thesis
    by (simp add: slot_def c_string_fit)
qed

lemma live_contents: "queue_ok q \<Longrightarrow> live q = contents q"
  by (simp add: live_def contents_def slot_in_use)

lemma slot_head:
  assumes ok: "queue_ok q" and ne: "size_q q \<noteq> 0"
  shows "slot q (head q) = buffer q ! nat (head q)"
proof -
  have "0 < nat (size_q q)" and "0 \<le> head q" "head q < capacity q"
    using ok ne by (simp_all add: queue_ok_iff counters_ok_def)
  then show ?thesis
    using slot_in_use [OF ok, of 0] by simp
qed

lemma live_enqueue:
  assumes ok: "queue_ok q" and room: "size_q q \<noteq> capacity q"
    and fit: "length a < slot_size q"
  shows "live (fst (gqueue_enqueue q a)) = live q @ [a]"
proof -
  have cok: "counters_ok q" using ok by (simp add: queue_ok_iff)
  have "queue_ok (fst (gqueue_enqueue q a))"
    using ok fit by (rule queue_ok_enqueue)
  then show ?thesis
    using ok by (simp add: live_contents contents_enqueue [OF cok room fit])
qed

lemma live_dequeue:
  assumes ok: "queue_ok q" and ne: "size_q q \<noteq> 0"
  shows "live q = slot q (head q) # live (fst (gqueue_dequeue q))"
proof -
  have cok: "counters_ok q" using ok by (simp add: queue_ok_iff)
  have "queue_ok (fst (gqueue_dequeue q))"
    using ok by (rule queue_ok_dequeue)
  then show ?thesis
    using ok contents_dequeue [OF cok ne] by (simp add: live_contents slot_head [OF ok ne])
qed

lemma slot_after_dequeue: "slot (fst (gqueue_dequeue q)) p = slot q p"
  by (simp add: slot_def gqueue_dequeue_def)

lemma drain_live:
  "queue_ok q \<Longrightarrow> nat (size_q q) \<le> n \<Longrightarrow>
     fst (drain n q) = live q \<and> size_q (snd (drain n q)) = 0"
proof (induction n arbitrary: q)
  case 0
  then have "size_q q = 0" by (simp add: queue_ok_iff counters_ok_def)
  then show ?case by (simp add: live_def)
next
  case (Suc n)
  show ?case
  proof (cases "size_q q = 0")
    case True
    then show ?thesis by (simp add: dequeue_empty live_def)
  next
    case False
    have cok: "counters_ok q" using Suc.prems(1) by (simp add: queue_ok_iff)
    let ?q' = "q\<lparr>head := (head q + 1) mod capacity q, size_q := size_q q - 1\<rparr>"
    have deq: "gqueue_dequeue q = (?q', Some (head q))"
      using cok False by (rule dequeue_nonempty)
    have ok': "queue_ok ?q'"
      using queue_ok_dequeue [OF Suc.prems(1)] deq by simp
    have "nat (size_q ?q') \<le> n"
      using Suc.prems(2) False by simp
    with ok' have ih: "fst (drain n ?q') = live ?q' \<and> size_q (snd (drain n ?q')) = 0"
      by (rule Suc.IH)
    have "slot ?q' (head q) = slot q (head q)"
      using slot_after_dequeue [of q "head q"] deq by simp
    moreover have "live q = slot q (head q) # live ?q'"
      using live_dequeue [OF Suc.prems(1) False] deq by simp
    ultimately show ?thesis
      using ih deq by (simp add: split_beta)
  qed
qed

subsection \<open>Submissions\<close>

lemma admits_room: "dns_admits q a \<Longrightarrow> size_q q \<noteq> capacity q"
  by (simp add: dns_admits_def gqueue_full_def split: if_splits)

lemma slot_size_resolver: "slot_size (dns_resolver q a) = slot_size q"
  by (simp add: dns_resolver_def slot_size_enqueue)

lemma queue_ok_resolver:
  "queue_ok q \<Longrightarrow> length a < slot_size q \<Longrightarrow> queue_ok (dns_resolver q a)"
  by (simp add: dns_resolver_def queue_ok_enqueue)

lemma live_resolver:
  "queue_ok q \<Longrightarrow> length a < slot_size q \<Longrightarrow>
     live (dns_resolver q a) = live q @ (if dns_admits q a then [a] else [])"
  by (simp add: dns_resolver_def live_enqueue admits_room)

lemma live_submit_all:
  "queue_ok q \<Longrightarrow> \<forall>a\<in>set xs. length a < slot_size q \<Longrightarrow>
     live (submit_all q xs) = live q @ admitted q xs"
  by (induction xs arbitrary: q) (simp_all add: queue_ok_resolver live_resolver slot_size_resolver)

lemma queue_ok_submit_all:
  "queue_ok q \<Longrightarrow> \<forall>a\<in>set xs. length a < slot_size q \<Longrightarrow> queue_ok (submit_all q xs)"
  by (induction xs arbitrary: q) (simp_all add: queue_ok_resolver slot_size_resolver)

lemma size_enqueue_room:
  "size_q q \<noteq> capacity q \<Longrightarrow> size_q (fst (gqueue_enqueue q a)) = size_q q + 1"
  by (simp add: gqueue_enqueue_def gqueue_full_def Let_def strcpy_counters)

lemma size_resolver:
  "size_q (dns_resolver q a) = size_q q + (if dns_admits q a then 1 else 0)"
  by (simp add: dns_resolver_def size_enqueue_room admits_room)

lemma size_submit_all: "size_q (submit_all q xs) = size_q q + int (length (admitted q xs))"
  by (induction xs arbitrary: q) (simp_all add: size_resolver)

lemma capacity_resolver: "capacity (dns_resolver q a) = capacity q"
  by (simp add: dns_resolver_def gqueue_enqueue_def Let_def strcpy_counters)

lemma capacity_submit_all: "capacity (submit_all q xs) = capacity q"
  by (induction xs arbitrary: q) (simp_all add: capacity_resolver)

lemma head_resolver: "head (dns_resolver q a) = head q"
  by (simp add: dns_resolver_def gqueue_enqueue_def Let_def strcpy_counters)

lemma size_live: "queue_ok q \<Longrightarrow> size_q q = int (length (live q))"
  by (simp add: length_live queue_ok_iff counters_ok_def)

subsection \<open>The scan of \<open>gqueue_find\<close>\<close>

lemma find_loop_iff:
  "gqueue_find_loop q a i =
     (if \<exists>j. i \<le> j \<and> j < size_q q \<and> slot q j = a then 1 else 0)"
proof (induction q a i rule: gqueue_find_loop.induct)
  case (1 q item i)
  have step: "gqueue_find_loop q item i =
      (if i < size_q q
       then (if item = slot q i then 1 else gqueue_find_loop q item (i + 1))
       else 0)"
    by (rule gqueue_find_loop.simps)
  show ?case
  proof (cases "i < size_q q")
    case False
    then show ?thesis by (subst step) simp
  next
    case True
    show ?thesis
    proof (cases "item = slot q i")
      case hit: True
      then have "\<exists>j. i \<le> j \<and> j < size_q q \<and> slot q j = item"
        using True by auto
      then show ?thesis
        using True hit by (subst step) simp
    next
      case miss: False
      have "(\<exists>j. i \<le> j \<and> j < size_q q \<and> slot q j = item) \<longleftrightarrow>
          (\<exists>j. i + 1 \<le> j \<and> j < size_q q \<and> slot q j = item)"
      proof
        assume "\<exists>j. i \<le> j \<and> j < size_q q \<and> slot q j = item"
        then obtain j where j: "i \<le> j" "j < size_q q" "slot q j = item" by blast
        with miss have "j \<noteq> i" by auto
        with j show "\<exists>j. i + 1 \<le> j \<and> j < size_q q \<and> slot q j = item"
          by (intro exI [of _ j]) simp
      next
        assume "\<exists>j. i + 1 \<le> j \<and> j < size_q q \<and> slot q j = item"
        then obtain j where "i + 1 \<le> j" "j < size_q q" "slot q j = item" by blast
        then show "\<exists>j. i \<le> j \<and> j < size_q q \<and> slot q j = item"
          by (intro exI [of _ j]) simp
      qed
      then show ?thesis
        using True miss "1.IH" by (subst step) simp
    qed
  qed
qed

lemma find_iff:
  "gqueue_find q a = (if \<exists>j. 0 \<le> j \<and> j < size_q q \<and> slot q j = a then 1 else 0)"
proof (cases "size_q q = 0")
  case True
  then show ?thesis by (simp add: gqueue_find_def gqueue_empty_def)
next
  case False
  then show ?thesis by (simp add: gqueue_find_def gqueue_empty_def find_loop_iff)
qed

lemma live_head0:
  assumes "counters_ok q" and "head q = 0"
  shows "live q = map (\<lambda>k. slot q (int k)) [0..<nat (size_q q)]"
proof -
  have "int k mod capacity q = int k" if "k < nat (size_q q)" for k
  proof -
    have "int k < capacity q"
      using that assms(1) unfolding counters_ok_def by linarith
    then show ?thesis by simp
  qed
  then show ?thesis
    using assms(2) by (simp add: live_def)
qed

lemma find_head0:
  assumes "counters_ok q" and "head q = 0"
  shows "gqueue_find q a = (if a \<in> set (live q) then 1 else 0)"
proof -
  have "(\<exists>j. 0 \<le> j \<and> j < size_q q \<and> slot q j = a) \<longleftrightarrow>
      (\<exists>k. k < nat (size_q q) \<and> slot q (int k) = a)"
  proof
    assume "\<exists>j. 0 \<le> j \<and> j < size_q q \<and> slot q j = a"
    then obtain j where "0 \<le> j" "j < size_q q" "slot q j = a" by blast
    then show "\<exists>k. k < nat (size_q q) \<and> slot q (int k) = a"
      by (intro exI [of _ "nat j"]) simp
  next
    assume "\<exists>k. k < nat (size_q q) \<and> slot q (int k) = a"
    then obtain k where "k < nat (size_q q)" "slot q (int k) = a" by blast
    then show "\<exists>j. 0 \<le> j \<and> j < size_q q \<and> slot q j = a"
      by (intro exI [of _ "int k"]) simp
  qed
  moreover have "a \<in> set (live q) \<longleftrightarrow> (\<exists>k. k < nat (size_q q) \<and> slot q (int k) = a)"
    by (auto simp: live_head0 [OF assms])
  ultimately show ?thesis
    by (simp add: find_iff)
qed

lemma fill_distinct:
  "queue_ok q \<Longrightarrow> head q = 0 \<Longrightarrow> distinct (live q @ xs) \<Longrightarrow>
   size_q q + int (length xs) \<le> capacity q \<Longrightarrow> \<forall>a\<in>set xs. length a < slot_size q \<Longrightarrow>
     admitted q xs = xs \<and> head (submit_all q xs) = 0"
proof (induction xs arbitrary: q)
  case Nil
  then show ?case by simp
next
  case (Cons a xs)
  have cok: "counters_ok q" using Cons.prems(1) by (simp add: queue_ok_iff)
  have fit: "length a < slot_size q" using Cons.prems(5) by simp
  have "gqueue_find q a = 0"
    using Cons.prems(3) by (simp add: find_head0 [OF cok Cons.prems(2)])
  moreover have "gqueue_full q = 0"
    using Cons.prems(4) by (simp add: gqueue_full_def)
  ultimately have adm: "dns_admits q a"
    by (simp add: dns_admits_def)
  let ?q' = "dns_resolver q a"
  have ok': "queue_ok ?q'" using Cons.prems(1) fit by (rule queue_ok_resolver)
  have h': "head ?q' = 0" using Cons.prems(2) by (simp add: head_resolver)
  have l': "live ?q' = live q @ [a]"
    using Cons.prems(1) fit adm by (simp add: live_resolver)
  have d': "distinct (live ?q' @ xs)"
    using Cons.prems(3) l' by simp
  have "size_q ?q' = size_q q + 1"
    using adm by (simp add: size_resolver)
  moreover have "capacity ?q' = capacity q"
    by (rule capacity_resolver)
  ultimately have s': "size_q ?q' + int (length xs) \<le> capacity ?q'"
    using Cons.prems(4) by simp
  have f': "\<forall>a\<in>set xs. length a < slot_size ?q'"
    using Cons.prems(5) by (simp add: slot_size_resolver)
  show ?case
    using Cons.IH [OF ok' h' d' s' f'] adm by simp
qed

lemma overrun_resolver:
  assumes ok: "counters_ok q" and fit: "length a < slot_size q"
  shows "overrun (dns_resolver q a) = overrun q"
proof (cases "dns_admits q a")
  case True
  then have "size_q q \<noteq> capacity q" by (rule admits_room)
  then show ?thesis
    using True by (simp add: dns_resolver_def enqueue_room [OF ok _ fit])
next
  case False
  then show ?thesis by (simp add: dns_resolver_def)
qed

lemma overrun_submit_all:
  "queue_ok q \<Longrightarrow> \<forall>a\<in>set xs. length a < slot_size q \<Longrightarrow>
     overrun (submit_all q xs) = overrun q"
proof (induction xs arbitrary: q)
  case Nil
  then show ?case by simp
next
  case (Cons a xs)
  have fit: "length a < slot_size q" using Cons.prems(2) by simp
  have cok: "counters_ok q" using Cons.prems(1) by (simp add: queue_ok_iff)
  have "overrun (submit_all (dns_resolver q a) xs) = overrun (dns_resolver q a)"
    using Cons.prems fit by (intro Cons.IH) (simp_all add: queue_ok_resolver slot_size_resolver)
  then show ?case
    by (simp add: overrun_resolver [OF cok fit])
qed

subsection \<open>Where \<open>gqueue_find\<close> looks, and which slot is written next\<close>

text \<open>
  At every capacity from 2 on: after two distinct addresses \<open>a\<close> and \<open>b\<close> that fit their
  slots were admitted to a fresh queue and \<open>a\<close> was dequeued, \<open>gqueue_find\<close> still
  compares with slot 0, so the live \<open>b\<close> is admitted again and \<open>a\<close>, which is gone, is
  rejected.
\<close>

lemma find_scans_from_slot_zero:
  assumes c: "2 \<le> c" "c \<le> int (length (buffer mem))" and ab: "a \<noteq> b"
    and fa: "length a < slot_size mem" and fb: "length b < slot_size mem"
  shows "live (fst (gqueue_dequeue (submit_all (gqueue_init mem c) [a, b]))) = [b] \<and>
    dns_admits (fst (gqueue_dequeue (submit_all (gqueue_init mem c) [a, b]))) b \<and>
    live (dns_resolver (fst (gqueue_dequeue (submit_all (gqueue_init mem c) [a, b]))) b) =
      [b, b] \<and>
    \<not> dns_admits (fst (gqueue_dequeue (submit_all (gqueue_init mem c) [a, b]))) a"
proof -
  define q where "q = fst (gqueue_dequeue (submit_all (gqueue_init mem c) [a, b]))"
  let ?i = "gqueue_init mem c" and ?f = "submit_all (gqueue_init mem c) [a, b]"
  have c0: "0 < c" using c(1) by simp
  have oki: "queue_ok ?i" using c0 c(2) by (rule queue_ok_init)
  have hi: "head ?i = 0" by (simp add: gqueue_init_def)
  have li: "live ?i = []" by (simp add: live_def gqueue_init_def)
  have di: "distinct (live ?i @ [a, b])" using ab li by simp
  have si: "size_q ?i + int (length [a, b]) \<le> capacity ?i"
    using c(1) by (simp add: gqueue_init_def)
  have fi: "\<forall>x\<in>set [a, b]. length x < slot_size ?i"
    using fa fb by (simp add: gqueue_init_def)
  have adm: "admitted ?i [a, b] = [a, b]" and hf: "head ?f = 0"
    using fill_distinct [OF oki hi di si fi] by simp_all
  have okf: "queue_ok ?f" using oki fi by (rule queue_ok_submit_all)
  have cokf: "counters_ok ?f" using okf by (simp add: queue_ok_iff)
  have lf: "live ?f = [a, b]"
    using live_submit_all [OF oki fi] adm li by simp
  have sf: "size_q ?f = 2"
    using size_live [OF okf] lf by simp
  have cf: "capacity ?f = c"
    by (subst capacity_submit_all) (simp add: gqueue_init_def)
  have zf: "slot_size ?f = slot_size mem"
    by (simp add: slot_size_resolver gqueue_init_def)
  have "map (\<lambda>k. slot ?f (int k)) [0..<nat (size_q ?f)] = [a, b]"
    using live_head0 [OF cokf hf] lf by simp
  then have "map (\<lambda>k. slot ?f (int k)) [0, 1] = [a, b]"
    using sf by (simp add: upt_rec)
  then have b0: "slot ?f 0 = a"
    by simp
  have ne: "size_q ?f \<noteq> 0" using sf by simp
  have dq: "gqueue_dequeue ?f =
      (?f\<lparr>head := (head ?f + 1) mod capacity ?f, size_q := size_q ?f - 1\<rparr>, Some (head ?f))"
    using cokf ne by (rule dequeue_nonempty)
  have okq: "queue_ok q"
    unfolding q_def using okf by (rule queue_ok_dequeue)
  have sq: "size_q q = 1" and cq: "capacity q = c"
    unfolding q_def using dq sf cf by simp_all
  have bq: "slot q 0 = a"
    unfolding q_def using b0 by (simp only: slot_after_dequeue)
  have zq: "slot_size q = slot_size mem"
    unfolding q_def using zf by (simp add: slot_size_dequeue)
  have lq: "live q = [b]"
    using live_dequeue [OF okf ne] lf unfolding q_def by simp
  have "(\<exists>j. 0 \<le> j \<and> j < size_q q \<and> slot q j = x) \<longleftrightarrow> a = x" for x
  proof
    assume "\<exists>j. 0 \<le> j \<and> j < size_q q \<and> slot q j = x"
    then obtain j where "0 \<le> j" "j < 1" "slot q j = x" using sq by auto
    then have "j = 0" by simp
    with \<open>slot q j = x\<close> bq show "a = x" by simp
  next
    assume "a = x"
    then show "\<exists>j. 0 \<le> j \<and> j < size_q q \<and> slot q j = x"
      using sq bq by (intro exI [of _ 0]) simp
  qed
  then have fnd: "gqueue_find q x = (if a = x then 1 else 0)" for x
    by (simp add: find_iff)
  have nf: "gqueue_full q = 0"
    using sq cq c(1) by (simp add: gqueue_full_def)
  have admb: "dns_admits q b"
    using fnd [of b] nf ab by (simp add: dns_admits_def)
  have nadm: "\<not> dns_admits q a"
    using fnd [of a] by (simp add: dns_admits_def)
  have "length b < slot_size q" using fb zq by simp
  then have "live (dns_resolver q b) = [b, b]"
    using live_resolver [OF okq, of b] admb lq by simp
  then show ?thesis
    using lq admb nadm unfolding q_def by simp
qed

text \<open>
  At every capacity: the slot that a dequeue from a full queue hands out is the slot that
  the next admitted submission writes.
\<close>

lemma full_queue_slot_reused:
  assumes ok: "queue_ok q" and full: "size_q q = capacity q"
    and adm: "dns_admits (fst (gqueue_dequeue q)) a" and fit: "length a < slot_size q"
  shows "snd (gqueue_dequeue q) = Some (head q) \<and>
    slot (dns_resolver (fst (gqueue_dequeue q)) a) (head q) = a"
proof -
  let ?c = "capacity q"
  have cok: "counters_ok q" using ok by (simp add: queue_ok_iff)
  have c: "0 < ?c" and h: "0 \<le> head q" "head q < ?c" and len: "?c \<le> int (length (buffer q))"
    using cok by (simp_all add: counters_ok_def)
  have ne: "size_q q \<noteq> 0" using full c by simp
  let ?q' = "q\<lparr>head := (head q + 1) mod ?c, size_q := size_q q - 1\<rparr>"
  have dq: "gqueue_dequeue q = (?q', Some (head q))"
    using cok ne by (rule dequeue_nonempty)
  have ok': "counters_ok ?q'"
    using counters_ok_dequeue [OF cok] dq by simp
  have room: "size_q ?q' \<noteq> capacity ?q'"
    using full by simp
  have fit': "length a < slot_size ?q'"
    using fit by simp
  have "((head q + 1) mod ?c + (?c - 1)) mod ?c = (head q + 1 + (?c - 1)) mod ?c"
    by (rule mod_add_left_eq)
  also have "head q + 1 + (?c - 1) = head q + ?c" by simp
  also have "(head q + ?c) mod ?c = head q"
    using h by simp
  finally have t: "(head ?q' + size_q ?q') mod capacity ?q' = head q"
    using full by simp
  have b: "buffer (fst (gqueue_enqueue ?q' a)) = (buffer q)[nat (head q) := a]"
    using enqueue_room [OF ok' room fit'] t by simp
  have z: "slot_size (fst (gqueue_enqueue ?q' a)) = slot_size q"
    by (simp add: slot_size_enqueue)
  have i: "nat (head q) < length (buffer q)"
    using h len by linarith
  have "c_string (slot_size q) ((buffer q)[nat (head q) := a]) (nat (head q)) = a"
    using i fit by (simp add: c_string_fit)
  then have "slot (fst (gqueue_enqueue ?q' a)) (head q) = a"
    by (simp add: slot_def b z)
  then show ?thesis
    using dq adm by (simp add: dns_resolver_def)
qed

subsection \<open>The size bound\<close>

lemma size_bounded_init: "0 < c \<Longrightarrow> size_bounded (gqueue_init q c)"
  by (simp add: size_bounded_def gqueue_init_def)

lemma size_bounded_enqueue: "size_bounded q \<Longrightarrow> size_bounded (fst (gqueue_enqueue q a))"
  by (auto simp: size_bounded_def gqueue_enqueue_def gqueue_full_def Let_def strcpy_counters)

lemma size_bounded_dequeue: "size_bounded q \<Longrightarrow> size_bounded (fst (gqueue_dequeue q))"
  by (auto simp: size_bounded_def gqueue_dequeue_def gqueue_empty_def)

lemma size_bounded_apply: "size_bounded q \<Longrightarrow> size_bounded (fst (qop_apply q x))"
  by (cases x) (simp_all add: size_bounded_enqueue size_bounded_dequeue split_beta)

lemma size_bounded_run: "size_bounded q \<Longrightarrow> size_bounded (qop_run q xs)"
  by (induction xs arbitrary: q) (simp_all add: size_bounded_apply)

lemma capacity_apply: "capacity (fst (qop_apply q x)) = capacity q"
  by (cases x)
    (simp_all add: gqueue_enqueue_def gqueue_dequeue_def Let_def split_beta strcpy_counters)

lemma capacity_run: "capacity (qop_run q xs) = capacity q"
  by (induction xs arbitrary: q) (simp_all add: capacity_apply)

text \<open>
  C8. After \<open>gqueue_init\<close> with a positive capacity \<open>c\<close>, and after any sequence of
  the six queue operations from there, the size is at least 0 and at most \<open>c\<close>. Each single
  operation keeps the bound: enqueue never raises the size above the capacity, dequeue
  never lowers it below 0, and find, size, empty and full leave the queue as it is.
\<close>

theorem size_between_zero_and_capacity:
  "0 < c \<Longrightarrow>
     size_bounded (gqueue_init q c) \<and>
     0 \<le> size_q (qop_run (gqueue_init q c) xs) \<and>
     size_q (qop_run (gqueue_init q c) xs) \<le> c \<and>
     (size_bounded q' \<longrightarrow>
        size_bounded (fst (qop_apply q' x)) \<and>
        size_q (fst (gqueue_enqueue q' a)) \<le> capacity q' \<and>
        0 \<le> size_q (fst (gqueue_dequeue q')) \<and>
        (x \<notin> range Enqueue \<and> x \<noteq> Dequeue \<longrightarrow> fst (qop_apply q' x) = q'))"
proof -
  assume c: "0 < c"
  have i: "size_bounded (gqueue_init q c)"
    using c by (rule size_bounded_init)
  have b: "size_bounded (qop_run (gqueue_init q c) xs)"
    using i by (rule size_bounded_run)
  have cap: "capacity (qop_run (gqueue_init q c) xs) = c"
    by (simp add: capacity_run gqueue_init_def)
  have run: "0 \<le> size_q (qop_run (gqueue_init q c) xs) \<and>
      size_q (qop_run (gqueue_init q c) xs) \<le> c"
    using b cap by (simp add: size_bounded_def)
  have ro: "x \<notin> range Enqueue \<and> x \<noteq> Dequeue \<longrightarrow> fst (qop_apply q' x) = q'"
    by (cases x) simp_all
  have enq: "size_bounded q' \<longrightarrow> size_q (fst (gqueue_enqueue q' a)) \<le> capacity q'"
    by (auto simp: size_bounded_def gqueue_enqueue_def gqueue_full_def Let_def strcpy_counters)
  have deq: "size_bounded q' \<longrightarrow> 0 \<le> size_q (fst (gqueue_dequeue q'))"
    by (auto simp: size_bounded_def gqueue_dequeue_def gqueue_empty_def)
  have ap: "size_bounded q' \<longrightarrow> size_bounded (fst (qop_apply q' x))"
    by (simp add: size_bounded_apply)
  show ?thesis
    using i run ro enq deq ap by blast
qed

theorem size_between_zero_and_capacity_witness:
  "(0::int) < 2 \<and>
   size_bounded \<lparr>head = 0, tail = 0, size_q = 1, capacity = 2, buffer = [''A'', ''B''],
     slot_size = 256, overrun = False\<rparr> \<and>
   Find ''A'' \<notin> range Enqueue \<and> Find ''A'' \<noteq> Dequeue \<and>
   size_q (qop_run (gqueue_init
       \<lparr>head = 0, tail = 0, size_q = 1, capacity = 2, buffer = [''A'', ''B''],
     slot_size = 256, overrun = False\<rparr> 2)
     [Enqueue ''A'', Enqueue ''B'', Enqueue ''C'', Dequeue]) \<le> 2 \<and>
   fst (qop_apply \<lparr>head = 0, tail = 0, size_q = 1, capacity = 2, buffer = [''A'', ''B''],
     slot_size = 256, overrun = False\<rparr>
     (Find ''A'')) =
     \<lparr>head = 0, tail = 0, size_q = 1, capacity = 2, buffer = [''A'', ''B''],
     slot_size = 256, overrun = False\<rparr>"
proof -
  let ?q = "\<lparr>head = 0, tail = 0, size_q = 1, capacity = 2, buffer = [''A'', ''B''],
     slot_size = 256, overrun = False\<rparr>"
  have c: "(0::int) < 2" by simp
  have b: "size_bounded ?q" by (simp add: size_bounded_def)
  have r: "Find ''A'' \<notin> range Enqueue \<and> Find ''A'' \<noteq> Dequeue" by auto
  show ?thesis
    using c b r
      size_between_zero_and_capacity [OF c, of ?q
        "[Enqueue ''A'', Enqueue ''B'', Enqueue ''C'', Dequeue]" ?q "Find ''A''" "''C''"]
    by simp
qed

subsection \<open>Order of removal\<close>

text \<open>
  C5. Dequeue order equals admission order. From any queue state \<open>q\<close> the queue can be
  in, after any sequence \<open>xs\<close> of calls of \<open>dns_resolver\<close> with addresses that fit their
  slot and with no dequeue in between, draining the queue with enough dequeues returns
  the entries that were live in \<open>q\<close> followed by the admitted addresses of \<open>xs\<close> in the
  order of their admission, and leaves the queue empty; no \<open>strcpy\<close> has left the
  array. For a queue that starts empty these are the admitted addresses alone.
\<close>

theorem dequeue_order_is_admission_order:
  "queue_ok q \<Longrightarrow> list_all (fits q) xs \<Longrightarrow> nat (gqueue_size (submit_all q xs)) \<le> n \<Longrightarrow>
     fst (drain n (submit_all q xs)) = live q @ admitted q xs \<and>
     gqueue_empty (snd (drain n (submit_all q xs))) = 1 \<and>
     overrun (submit_all q xs) = overrun q"
proof -
  assume ok: "queue_ok q" and fit: "list_all (fits q) xs"
    and n: "nat (gqueue_size (submit_all q xs)) \<le> n"
  have fit': "\<forall>a\<in>set xs. length a < slot_size q"
    using fit by (simp add: list_all_iff fits_def)
  have ok': "queue_ok (submit_all q xs)"
    using ok fit' by (rule queue_ok_submit_all)
  have n': "nat (size_q (submit_all q xs)) \<le> n"
    using n by (simp add: gqueue_size_def)
  have "fst (drain n (submit_all q xs)) = live (submit_all q xs)"
    using drain_live [OF ok' n'] by simp
  moreover have "size_q (snd (drain n (submit_all q xs))) = 0"
    using drain_live [OF ok' n'] by simp
  ultimately show ?thesis
    using ok fit' by (simp add: live_submit_all overrun_submit_all gqueue_empty_def)
qed

theorem dequeue_order_is_admission_order_witness:
  "fst (drain 3 (submit_all (gqueue_init (fresh_mem 3) 3) [''A'', ''B'', ''C''])) =
     [''A'', ''B'', ''C''] \<and>
   gqueue_empty (snd (drain 3 (submit_all (gqueue_init (fresh_mem 3) 3)
     [''A'', ''B'', ''C'']))) = 1 \<and>
   \<not> overrun (submit_all (gqueue_init (fresh_mem 3) 3) [''A'', ''B'', ''C''])"
proof -
  let ?q = "gqueue_init (fresh_mem 3) 3"
  have ok: "queue_ok ?q"
    by (rule queue_ok_init) (simp_all add: fresh_mem_def)
  have fit: "list_all (fits ?q) [''A'', ''B'', ''C'']"
    by (simp add: fits_def gqueue_init_def fresh_mem_def)
  have n: "nat (gqueue_size (submit_all ?q [''A'', ''B'', ''C''])) \<le> 3"
    by code_simp
  have adm: "live ?q @ admitted ?q [''A'', ''B'', ''C''] = [''A'', ''B'', ''C'']"
    by code_simp
  have o: "\<not> overrun ?q"
    by (simp add: gqueue_init_def fresh_mem_def)
  show ?thesis
    using dequeue_order_is_admission_order [OF ok fit n] adm o by simp
qed

subsection \<open>Bounded admission\<close>

text \<open>
  C6. For a queue initialised with capacity \<open>c\<close>: after \<open>c\<close> submissions that were all
  admitted, with no dequeue in between, the queue is full, and a further submission of
  any address \<open>a\<close> is rejected, by \<open>dns_resolver\<close> and by \<open>gqueue_enqueue\<close> alike; the
  queue after it is the queue before it, in head, tail, size and contents. Submissions
  of \<open>c\<close> distinct addresses that fit their slot are all admitted.
\<close>

theorem full_queue_rejects:
  "0 < c \<Longrightarrow> int (length xs) = c \<Longrightarrow>
     (admitted (gqueue_init mem c) xs = xs \<longrightarrow>
        gqueue_size (submit_all (gqueue_init mem c) xs) = c \<and>
        \<not> dns_admits (submit_all (gqueue_init mem c) xs) a \<and>
        dns_resolver (submit_all (gqueue_init mem c) xs) a = submit_all (gqueue_init mem c) xs \<and>
        gqueue_enqueue (submit_all (gqueue_init mem c) xs) a =
          (submit_all (gqueue_init mem c) xs, - 1)) \<and>
     (distinct xs \<and> c \<le> int (length (buffer mem)) \<and> list_all (fits mem) xs \<longrightarrow>
        admitted (gqueue_init mem c) xs = xs)"
proof -
  assume c: "0 < c" and l: "int (length xs) = c"
  let ?q = "gqueue_init mem c" and ?q' = "submit_all (gqueue_init mem c) xs"
  have rejected: "gqueue_size ?q' = c \<and> \<not> dns_admits ?q' a \<and> dns_resolver ?q' a = ?q' \<and>
      gqueue_enqueue ?q' a = (?q', - 1)"
    if adm: "admitted ?q xs = xs"
  proof -
    have sz: "size_q ?q' = c"
      using size_submit_all [of ?q xs] adm l by (simp add: gqueue_init_def)
    have cap: "capacity ?q' = c"
      by (simp add: capacity_submit_all gqueue_init_def)
    have full: "gqueue_full ?q' = 1"
      using sz cap by (simp add: gqueue_full_def)
    have "\<not> dns_admits ?q' a"
      using full by (simp add: dns_admits_def)
    moreover have "gqueue_enqueue ?q' a = (?q', - 1)"
      using full by (simp add: gqueue_enqueue_def)
    ultimately show ?thesis
      using sz by (simp add: dns_resolver_def gqueue_size_def)
  qed
  have admitted: "admitted ?q xs = xs"
    if d: "distinct xs" and len: "c \<le> int (length (buffer mem))"
      and fit: "list_all (fits mem) xs"
  proof -
    have ok: "queue_ok ?q" using c len by (rule queue_ok_init)
    have h: "head ?q = 0" by (simp add: gqueue_init_def)
    have e: "live ?q = []" by (simp add: live_def gqueue_init_def)
    have s: "size_q ?q + int (length xs) \<le> capacity ?q"
      using l by (simp add: gqueue_init_def)
    have d': "distinct (live ?q @ xs)" using d e by simp
    have f: "\<forall>a\<in>set xs. length a < slot_size ?q"
      using fit by (simp add: list_all_iff fits_def gqueue_init_def)
    show ?thesis
      using fill_distinct [OF ok h d' s f] by simp
  qed
  show ?thesis
    using rejected admitted by blast
qed

theorem full_queue_rejects_witness:
  "admitted (gqueue_init (fresh_mem 2) 2) [''A'', ''B''] = [''A'', ''B''] \<and>
   distinct [''A'', ''B''] \<and> list_all (fits (fresh_mem 2)) [''A'', ''B''] \<and>
   dns_resolver (submit_all (gqueue_init (fresh_mem 2) 2) [''A'', ''B'']) ''C'' =
     \<lparr>head = 0, tail = 1, size_q = 2, capacity = 2, buffer = [''A'', ''B''],
      slot_size = 256, overrun = False\<rparr>"
proof -
  have c: "(0::int) < 2" "int (length [''A'', ''B'']) = 2"
    by simp_all
  have h: "distinct [''A'', ''B''] \<and> 2 \<le> int (length (buffer (fresh_mem 2))) \<and>
      list_all (fits (fresh_mem 2)) [''A'', ''B'']"
    by (simp add: fresh_mem_def fits_def)
  have v: "submit_all (gqueue_init (fresh_mem 2) 2) [''A'', ''B''] =
      \<lparr>head = 0, tail = 1, size_q = 2, capacity = 2, buffer = [''A'', ''B''],
       slot_size = 256, overrun = False\<rparr>"
    by code_simp
  show ?thesis
    using full_queue_rejects [OF c, of "fresh_mem 2" "''C''"] h v by simp
qed

subsection \<open>The empty queue\<close>

text \<open>
  C10. On an empty queue \<open>gqueue_dequeue\<close> returns \<open>NULL\<close> and the queue unchanged
  (head, tail, size and slots), and \<open>gqueue_find\<close> returns 0.
\<close>

theorem dequeue_empty_find_empty:
  "gqueue_empty q \<noteq> 0 \<Longrightarrow> gqueue_dequeue q = (q, None) \<and> gqueue_find q item = 0"
  by (simp add: gqueue_dequeue_def gqueue_find_def)

theorem dequeue_empty_find_empty_witness:
  "gqueue_empty \<lparr>head = 1, tail = 0, size_q = 0, capacity = 2, buffer = [''A'', ''B''],
     slot_size = 256, overrun = False\<rparr> \<noteq> 0 \<and>
   gqueue_dequeue \<lparr>head = 1, tail = 0, size_q = 0, capacity = 2, buffer = [''A'', ''B''],
     slot_size = 256, overrun = False\<rparr> =
     (\<lparr>head = 1, tail = 0, size_q = 0, capacity = 2, buffer = [''A'', ''B''],
     slot_size = 256, overrun = False\<rparr>, None) \<and>
   gqueue_find \<lparr>head = 1, tail = 0, size_q = 0, capacity = 2, buffer = [''A'', ''B''],
     slot_size = 256, overrun = False\<rparr> ''A'' = 0"
proof -
  have e: "gqueue_empty \<lparr>head = 1, tail = 0, size_q = 0, capacity = 2, buffer = [''A'', ''B''],
     slot_size = 256, overrun = False\<rparr> \<noteq> 0"
    by (simp add: gqueue_empty_def)
  show ?thesis
    using e dequeue_empty_find_empty [OF e, of "''A''"] by simp
qed

section \<open>Facts about the worker\<close>

lemma stopped_step: "worker g = Stopped \<Longrightarrow> mutex_held g \<Longrightarrow> step L g e = g"
  by (cases e) (simp_all add: dns_worker_def)

lemma stopped_run: "worker g = Stopped \<Longrightarrow> mutex_held g \<Longrightarrow> run L g es = g"
  by (induction es) (simp_all add: run_def stopped_step)

lemma publish_inactive:
  "\<not> active_gdns g \<Longrightarrow>
     worker_publish ip host g = g\<lparr>worker := Stopped, mutex_held := True\<rparr>"
  by (simp add: worker_publish_def)

lemma take_nonempty:
  "gqueue_empty (gdns_queue g) = 0 \<Longrightarrow>
     worker_take g =
       g\<lparr>gdns_queue := fst (gqueue_dequeue (gdns_queue g)),
         worker := Resolving (Some (head (gdns_queue g)))\<rparr>"
  by (simp add: worker_take_def gqueue_dequeue_def)

lemma run_append: "run L g (es @ es') = run L (run L g es) es'"
  by (simp add: run_def)

text \<open>
  A lookup that fails makes \<open>reverse_ip\<close> return the text of the error, and an active
  worker puts whatever string it was given.
\<close>

lemma failed_lookup_returns_text:
  assumes "s \<noteq> []" and "inet_pton4 L s = Some a" and "fst (getnameinfo L (Sockaddr_in a)) \<noteq> 0"
  shows "fst (reverse_ip L (Some s)) = Some (gai_strerror L (fst (getnameinfo L (Sockaddr_in a))))"
  using assms by (simp add: reverse_ip_def reverse_host_def split_beta)

lemma publish_any_text:
  assumes "worker g = Publishing ip (Some h)" and "active_gdns g"
  shows "hostnames (dns_worker L g) = hostnames g @ [(map_option (slot (gdns_queue g)) ip, h)]"
  using assms by (simp add: dns_worker_def worker_publish_def ht_insert_hostname_def)

subsection \<open>Shutdown\<close>

text \<open>
  C4. If the flag is false when the worker takes the mutex again after the resolution
  call, the worker makes no put, whatever the call returned (a hostname included), and
  stops. From then on no event changes the store and the worker stays stopped.
\<close>

theorem inactive_worker_discards_and_stops:
  "worker g = Publishing ip host \<Longrightarrow> \<not> active_gdns g \<Longrightarrow>
     hostnames (dns_worker L g) = hostnames g \<and>
     worker (dns_worker L g) = Stopped \<and>
     hostnames (run L (dns_worker L g) es) = hostnames g \<and>
     worker (run L (dns_worker L g) es) = Stopped"
proof -
  assume w: "worker g = Publishing ip host" and a: "\<not> active_gdns g"
  have d: "dns_worker L g = g\<lparr>worker := Stopped, mutex_held := True\<rparr>"
    using w a by (simp add: dns_worker_def publish_inactive)
  have "run L (dns_worker L g) es = dns_worker L g"
    using d by (intro stopped_run) simp_all
  then show ?thesis
    using d by simp
qed

theorem inactive_worker_discards_and_stops_witness:
  "worker (run libc_stub (gdns_start 2 (fresh_mem 2))
     [Submit ''93.184.216.34'', Work, Stop, Work]) =
     Publishing (Some 0) (Some ''example.com'') \<and>
   \<not> active_gdns (run libc_stub (gdns_start 2 (fresh_mem 2))
     [Submit ''93.184.216.34'', Work, Stop, Work]) \<and>
   hostnames (run libc_stub (gdns_start 2 (fresh_mem 2))
     ([Submit ''93.184.216.34'', Work, Stop, Work] @ [Work] @
      [Submit ''10.0.0.1'', Work, Work, Work])) = [] \<and>
   worker (run libc_stub (gdns_start 2 (fresh_mem 2))
     ([Submit ''93.184.216.34'', Work, Stop, Work] @ [Work] @
      [Submit ''10.0.0.1'', Work, Work, Work])) = Stopped"
proof -
  define g where
    "g = run libc_stub (gdns_start 2 (fresh_mem 2)) [Submit ''93.184.216.34'', Work, Stop, Work]"
  have w: "worker g = Publishing (Some 0) (Some ''example.com'')"
    unfolding g_def by code_simp
  have a: "\<not> active_gdns g"
    unfolding g_def by code_simp
  have h: "hostnames g = []"
    unfolding g_def by code_simp
  have s: "run libc_stub g [Work] = dns_worker libc_stub g"
    by (simp add: run_def)
  show ?thesis
    using inactive_worker_discards_and_stops [OF w a, of libc_stub
        "[Submit ''10.0.0.1'', Work, Work, Work]"] w a h s
    unfolding run_append g_def [symmetric]
    by simp
qed

subsection \<open>Addresses that do not parse\<close>

text \<open>
  C7, as the claim states it, fails at the empty string: \<open>reverse_ip\<close> returns \<open>NULL\<close>
  at its first test and calls neither \<open>inet_pton\<close> nor anything else.
\<close>

theorem empty_string_is_not_parsed:
  "reverse_ip libc_stub (Some []) = (None, []) \<and>
   Inet_pton4 [] \<notin> set (snd (reverse_ip libc_stub (Some [])))"
  by (simp add: reverse_ip_def)

text \<open>
  C7, amended. For every non-empty string \<open>s\<close>, the first call of \<open>reverse_ip\<close> is the
  IPv4 parse of \<open>s\<close>; if that fails, the second is the IPv6 parse of \<open>s\<close>; if that fails
  too, the result is \<open>NULL\<close> and these two parses are all the calls made, so there is no
  lookup. A worker that takes such an address from the queue, resolves it and reaches
  the end of its iteration has made no put: the store is as it was. On the empty string
  \<open>reverse_ip\<close> returns \<open>NULL\<close> without any call, whatever the C library.
\<close>

theorem unparseable_address_unpublished:
  "s \<noteq> [] \<Longrightarrow>
     take 1 (snd (reverse_ip L (Some s))) = [Inet_pton4 s] \<and>
     (inet_pton4 L s = None \<longrightarrow>
        take 2 (snd (reverse_ip L (Some s))) = [Inet_pton4 s, Inet_pton6 s] \<and>
        (inet_pton6 L s = None \<longrightarrow>
           reverse_ip L (Some s) = (None, [Inet_pton4 s, Inet_pton6 s]) \<and>
           (worker g = Waiting \<and> gqueue_empty (gdns_queue g) = 0 \<and>
            slot (gdns_queue g) (head (gdns_queue g)) = s \<longrightarrow>
              hostnames (run L g [Work, Work, Work]) = hostnames g \<and>
              calls (run L g [Work, Work, Work]) = calls g @ [Inet_pton4 s, Inet_pton6 s]))) \<and>
     reverse_ip L (Some []) = (None, [])"
proof -
  assume s: "s \<noteq> []"
  have empty: "reverse_ip L (Some []) = (None, [])"
    by (simp add: reverse_ip_def)
  have first: "take 1 (snd (reverse_ip L (Some s))) = [Inet_pton4 s]"
    using s by (simp add: reverse_ip_def reverse_host_def split_beta split: option.splits)
  have second: "take 2 (snd (reverse_ip L (Some s))) = [Inet_pton4 s, Inet_pton6 s]"
    if "inet_pton4 L s = None"
    using s that by (simp add: reverse_ip_def reverse_host_def split_beta split: option.splits)
  have neither: "reverse_ip L (Some s) = (None, [Inet_pton4 s, Inet_pton6 s])"
    if "inet_pton4 L s = None" "inet_pton6 L s = None"
    using s that by (simp add: reverse_ip_def)
  have work: "hostnames (run L g [Work, Work, Work]) = hostnames g \<and>
      calls (run L g [Work, Work, Work]) = calls g @ [Inet_pton4 s, Inet_pton6 s]"
    if n: "inet_pton4 L s = None" "inet_pton6 L s = None"
      and w: "worker g = Waiting" and e: "gqueue_empty (gdns_queue g) = 0"
      and h: "slot (gdns_queue g) (head (gdns_queue g)) = s"
  proof -
    define g1 where "g1 = dns_worker L g"
    define g2 where "g2 = dns_worker L g1"
    define g3 where "g3 = dns_worker L g2"
    have g1: "g1 = g\<lparr>gdns_queue := fst (gqueue_dequeue (gdns_queue g)),
        worker := Resolving (Some (head (gdns_queue g)))\<rparr>"
      unfolding g1_def using w e by (simp add: dns_worker_def take_nonempty)
    have r: "reverse_ip L (map_option (slot (gdns_queue g1)) (Some (head (gdns_queue g)))) =
        (None, [Inet_pton4 s, Inet_pton6 s])"
      using h neither [OF n] by (simp add: g1 slot_after_dequeue)
    have g2: "g2 = g1\<lparr>worker := Publishing (Some (head (gdns_queue g))) None,
        calls := calls g1 @ [Inet_pton4 s, Inet_pton6 s]\<rparr>"
      unfolding g2_def using r by (simp add: g1 dns_worker_def worker_resolve_def)
    have g3: "hostnames g3 = hostnames g2 \<and> calls g3 = calls g2"
      unfolding g3_def by (simp add: g2 dns_worker_def worker_publish_def)
    have "run L g [Work, Work, Work] = g3"
      by (simp add: run_def g3_def g2_def g1_def)
    then have "hostnames (run L g [Work, Work, Work]) = hostnames g \<and>
        calls (run L g [Work, Work, Work]) = calls g @ [Inet_pton4 s, Inet_pton6 s]"
      using g3 by (simp add: g2 g1)
    then show ?thesis .
  qed
  show ?thesis
    using first second neither work empty by blast
qed

theorem unparseable_address_unpublished_witness:
  "''not-an-ip'' \<noteq> [] \<and> inet_pton4 libc_stub ''not-an-ip'' = None \<and>
   inet_pton6 libc_stub ''not-an-ip'' = None \<and>
   dns_admits (gqueue_init (fresh_mem 2) 2) ''not-an-ip'' \<and>
   worker (run libc_stub (gdns_start 2 (fresh_mem 2)) [Submit ''not-an-ip'']) = Waiting \<and>
   hostnames (run libc_stub (gdns_start 2 (fresh_mem 2)) [Submit ''not-an-ip'', Work, Work, Work]) = []"
proof -
  let ?g = "run libc_stub (gdns_start 2 (fresh_mem 2)) [Submit ''not-an-ip'']"
  have s: "''not-an-ip'' \<noteq> []" by simp
  have p4: "inet_pton4 libc_stub ''not-an-ip'' = None" by (simp add: libc_stub_def)
  have p6: "inet_pton6 libc_stub ''not-an-ip'' = None" by (simp add: libc_stub_def)
  have adm: "dns_admits (gqueue_init (fresh_mem 2) 2) ''not-an-ip''" by code_simp
  have w: "worker ?g = Waiting" by code_simp
  have e: "gqueue_empty (gdns_queue ?g) = 0" by code_simp
  have h: "slot (gdns_queue ?g) (head (gdns_queue ?g)) = ''not-an-ip''" by code_simp
  have hs: "hostnames ?g = []" by code_simp
  have r: "run libc_stub (gdns_start 2 (fresh_mem 2)) [Submit ''not-an-ip'', Work, Work, Work] =
      run libc_stub ?g [Work, Work, Work]"
    by (simp add: run_def)
  show ?thesis
    using unparseable_address_unpublished [OF s, of libc_stub ?g] s p4 p6 adm w e h hs r
    by simp
qed

subsection \<open>Lookups that fail\<close>

text \<open>
  C1. What the code does where the claim expects no put. The stub parses
  \<open>''10.0.0.1''\<close> and answers the lookup of that address with the status -2.
  \<open>reverse_ip\<close> then returns the text of the error, not \<open>NULL\<close>, and the worker puts
  that text into the store as the hostname of the address.
\<close>

theorem failed_lookup_is_published:
  "reverse_ip libc_stub (Some ''10.0.0.1'') =
     (Some ''Name or service not known'',
      [Inet_pton4 ''10.0.0.1'', Getnameinfo (Sockaddr_in [10, 0, 0, 1])]) \<and>
   hostnames (run libc_stub (gdns_start 2 (fresh_mem 2)) [Submit ''10.0.0.1'', Work, Work, Work]) =
     [(Some ''10.0.0.1'', ''Name or service not known'')]"
  by code_simp

subsection \<open>Duplicates\<close>

text \<open>
  C2. What the code does where the claim expects a rejection. Capacity 3; A and B are
  submitted, then A is dequeued, so that B (in slot 1) is the one live entry.
  \<open>gqueue_find\<close> looks at slot 0 only: it does not find B, and a second B is admitted
  while the first is live; it does find A, which is no longer live, and a submission of
  A is rejected.
\<close>

theorem find_misses_live_entry:
  "live (fst (gqueue_dequeue (submit_all (gqueue_init (fresh_mem 3) 3) [''A'', ''B'']))) = [''B''] \<and>
   gqueue_find (fst (gqueue_dequeue (submit_all (gqueue_init (fresh_mem 3) 3) [''A'', ''B'']))) ''B'' = 0 \<and>
   live (dns_resolver
     (fst (gqueue_dequeue (submit_all (gqueue_init (fresh_mem 3) 3) [''A'', ''B'']))) ''B'') =
     [''B'', ''B''] \<and>
   gqueue_find (fst (gqueue_dequeue (submit_all (gqueue_init (fresh_mem 3) 3) [''A'', ''B'']))) ''A'' = 1 \<and>
   dns_resolver (fst (gqueue_dequeue (submit_all (gqueue_init (fresh_mem 3) 3) [''A'', ''B'']))) ''A'' =
     fst (gqueue_dequeue (submit_all (gqueue_init (fresh_mem 3) 3) [''A'', ''B'']))"
  by code_simp

subsection \<open>The string behind a dequeued pointer\<close>

text \<open>
  C3. What the code does where the claim expects a private copy. Capacity 2; the queue
  is filled with \<open>''93.184.216.34''\<close> and \<open>''10.0.0.2''\<close>. The dequeue returns the address
  of slot 0, whose characters are \<open>''93.184.216.34''\<close>. A submission of \<open>''10.0.0.3''\<close>
  after that is admitted and written to slot 0: the string behind the worker's pointer
  is now \<open>''10.0.0.3''\<close>. When the submission comes after the worker has resolved the
  first address and before it publishes, the name of \<open>''93.184.216.34''\<close> is stored
  under the key \<open>''10.0.0.3''\<close>.
\<close>

theorem dequeued_string_is_overwritten:
  "snd (gqueue_dequeue (submit_all (gqueue_init (fresh_mem 2) 2) [''93.184.216.34'', ''10.0.0.2''])) =
     Some 0 \<and>
   slot (fst (gqueue_dequeue
     (submit_all (gqueue_init (fresh_mem 2) 2) [''93.184.216.34'', ''10.0.0.2'']))) 0 =
     ''93.184.216.34'' \<and>
   slot (dns_resolver (fst (gqueue_dequeue
     (submit_all (gqueue_init (fresh_mem 2) 2) [''93.184.216.34'', ''10.0.0.2''])))
     ''10.0.0.3'') 0 = ''10.0.0.3'' \<and>
   hostnames (run libc_stub (gdns_start 2 (fresh_mem 2))
     [Submit ''93.184.216.34'', Submit ''10.0.0.2'', Work, Work, Submit ''10.0.0.3'', Work]) =
     [(Some ''10.0.0.3'', ''example.com'')]"
  by code_simp

subsection \<open>Failures at start-up\<close>

text \<open>
  C9. \<open>gdns_init\<close> ends in \<open>FATAL\<close> exactly when the initialisation of a condition
  variable or of the mutex returns a non-zero code, and \<open>gdns_thread_create\<close> does
  exactly when \<open>pthread_create\<close> returns one. In each of these cases the function
  returns no state to continue with.
\<close>

theorem startup_failure_is_fatal:
  "isl (gdns_init rc n mem) =
     (cond_init_not_empty rc \<noteq> 0 \<or> cond_init_not_full rc \<noteq> 0 \<or> mutex_init rc \<noteq> 0) \<and>
   isl (gdns_thread_create rc q hs) = (thread_create rc \<noteq> 0)"
  by (simp add: gdns_init_def gdns_thread_create_def Let_def)

theorem startup_failure_is_fatal_witness:
  "gdns_init \<lparr>cond_init_not_empty = 0, cond_init_not_full = 0, mutex_init = 12,
       thread_create = 11\<rparr> 2 (fresh_mem 2) = Inl (Fatal ''Failed init thread mutex'' []) \<and>
   isl (gdns_thread_create \<lparr>cond_init_not_empty = 0, cond_init_not_full = 0, mutex_init = 12,
       thread_create = 11\<rparr> (gqueue_init (fresh_mem 2) 2) [])"
proof -
  let ?rc = "\<lparr>cond_init_not_empty = 0, cond_init_not_full = 0, mutex_init = 12,
       thread_create = 11\<rparr>"
  have "gdns_init ?rc 2 (fresh_mem 2) = Inl (Fatal ''Failed init thread mutex'' [])"
    by (simp add: gdns_init_def)
  then show ?thesis
    using startup_failure_is_fatal [of ?rc 2 "fresh_mem 2" "gqueue_init (fresh_mem 2) 2" "[]"]
    by simp
qed

end
